theory Spec2Isabelle
  imports Complex_Main "HOL-Library.Multiset" "HOL-Library.Char_ord" "HOL-Library.List_Lexorder"
    "HOL-Library.Product_Lexorder"
begin

section \<open>Data model\<close>

text \<open>
  A row of the \<^verbatim>\<open>transactions\<close> table and of the in-memory DataFrame
  (\<^verbatim>\<open>COLUMNS = ["id", "date", "group", "description", "amount"]\<close>).
  Python floats are idealised as exact reals; strings are lists of characters.
\<close>

record txn =
  tid :: int
  tdate :: string
  tgroup :: string
  description :: string
  amount :: real

text \<open>
  An entry of \<^verbatim>\<open>undo_stack\<close>: the dictionaries
  \<^verbatim>\<open>{'action': 'add', 'id': ...}\<close> and \<^verbatim>\<open>{'action': 'delete', 'rows': [...]}\<close>.
\<close>

datatype action = Add int | Delete "txn list"

definition UNDO_STACK_MAX :: nat where
  "UNDO_STACK_MAX = 100"

subsection \<open>The undo stack\<close>

text \<open>
  \<^verbatim>\<open>_push_undo\<close>: append, then \<^verbatim>\<open>pop(0)\<close> when the length exceeds the cap.
\<close>

definition push_undo :: "action list \<Rightarrow> action \<Rightarrow> action list" where
  "push_undo undo_stack a =
     (let st = undo_stack @ [a]
      in if length st > UNDO_STACK_MAX then tl st else st)"

section \<open>Strings\<close>

text \<open>
  Python's \<^verbatim>\<open>str\<close> methods used by the program, on strings whose characters are
  code points below 256. \<^verbatim>\<open>str.strip()\<close> removes leading and trailing whitespace
  (\<^verbatim>\<open>str.isspace\<close>: tab to carriage return, the separators 28 to 31, space, NEL and the
  no-break space).
\<close>

definition is_space :: "char \<Rightarrow> bool" where
  "is_space c = ((of_char c :: nat) \<in> {9, 10, 11, 12, 13, 28, 29, 30, 31, 32, 133, 160})"

definition strip :: "string \<Rightarrow> string" where
  "strip s = rev (dropWhile is_space (rev (dropWhile is_space s)))"

text \<open>\<^verbatim>\<open>s.replace(old, new)\<close>: every non-overlapping occurrence, left to right.\<close>

fun replace :: "string \<Rightarrow> string \<Rightarrow> string \<Rightarrow> string" where
  "replace [] new s = new @ concat (map (\<lambda>c. c # new) s)"
| "replace (a # old) new [] = []"
| "replace (a # old) new (c # cs) =
     (if take (length (a # old)) (c # cs) = a # old
      then new @ replace (a # old) new (drop (length old) cs)
      else c # replace (a # old) new cs)"

text \<open>\<^verbatim>\<open>s.split(sep)\<close> for a separator of one character.\<close>

fun split :: "char \<Rightarrow> string \<Rightarrow> string list" where
  "split sep [] = [[]]"
| "split sep (c # cs) =
     (if c = sep then [] # split sep cs
      else (case split sep cs of [] \<Rightarrow> [[c]] | p # ps \<Rightarrow> (c # p) # ps))"

text \<open>\<^verbatim>\<open>str.lower()\<close> on code points below 256.\<close>

definition lower_char :: "char \<Rightarrow> char" where
  "lower_char c =
     (let n = (of_char c :: nat)
      in if (65 \<le> n \<and> n \<le> 90) \<or> (192 \<le> n \<and> n \<le> 222 \<and> n \<noteq> 215) then char_of (n + 32) else c)"

definition lower :: "string \<Rightarrow> string" where
  "lower s = map lower_char s"

section \<open>Amounts\<close>

subsection \<open>The built-in \<^verbatim>\<open>float\<close> on strings\<close>

text \<open>
  \<^verbatim>\<open>float(s)\<close> for the finite decimal literals of Python's grammar
  \<^verbatim>\<open>[sign] (digitpart ["." [digitpart]] | "." digitpart) [("e" | "E") [sign] digitpart]\<close>,
  surrounded by optional whitespace, where a digitpart is digits with single underscores
  between them. The value is the exact decimal value (no rounding to a binary double);
  the non-finite literals \<^verbatim>\<open>inf\<close> and \<^verbatim>\<open>nan\<close> have no value in this model
  and are rejected like malformed text.
\<close>

definition is_digit :: "char \<Rightarrow> bool" where
  "is_digit c = (c \<in> set ''0123456789'')"

definition digit_val :: "char \<Rightarrow> int" where
  "digit_val c = of_char c - 48"

definition int_of_digits :: "string \<Rightarrow> int" where
  "int_of_digits ds = foldl (\<lambda>n c. 10 * n + digit_val c) 0 ds"

fun digitpart_ok :: "string \<Rightarrow> bool" where
  "digitpart_ok [] = False"
| "digitpart_ok [c] = is_digit c"
| "digitpart_ok (c # d # cs) =
     (is_digit c \<and> (if d = CHR ''_'' then digitpart_ok cs else digitpart_ok (d # cs)))"

definition digitpart :: "string \<Rightarrow> string option" where
  "digitpart s = (if digitpart_ok s then Some (filter (\<lambda>c. c \<noteq> CHR ''_'') s) else None)"

definition opt_digitpart :: "string \<Rightarrow> string option" where
  "opt_digitpart s = (if s = [] then Some [] else digitpart s)"

definition signed :: "string \<Rightarrow> int \<times> string" where
  "signed s =
     (case s of
        [] \<Rightarrow> (1, [])
      | c # cs \<Rightarrow> if c = CHR ''-'' then (- 1, cs) else if c = CHR ''+'' then (1, cs) else (1, s))"

definition exponent :: "string \<Rightarrow> int option" where
  "exponent s =
     (if s = [] then Some 0
      else (let (sg, ds) = signed (tl s)
            in case digitpart ds of None \<Rightarrow> None | Some d \<Rightarrow> Some (sg * int_of_digits d)))"

definition mantissa :: "string \<Rightarrow> real option" where
  "mantissa s =
     (let ip = takeWhile (\<lambda>c. c \<noteq> CHR ''.'') s; rest = dropWhile (\<lambda>c. c \<noteq> CHR ''.'') s
      in if rest = [] then map_option (\<lambda>d. real_of_int (int_of_digits d)) (digitpart ip)
         else (case (opt_digitpart ip, opt_digitpart (tl rest)) of
                 (Some i, Some f) \<Rightarrow>
                   if i = [] \<and> f = [] then None
                   else Some (real_of_int (int_of_digits (i @ f)) / 10 ^ length f)
               | _ \<Rightarrow> None))"

definition scale10 :: "real \<Rightarrow> int \<Rightarrow> real" where
  "scale10 m e = (if 0 \<le> e then m * 10 ^ nat e else m / 10 ^ nat (- e))"

definition py_float :: "string \<Rightarrow> real option" where
  "py_float s0 =
     (let (sg, s) = signed (strip s0);
          is_e = (\<lambda>c. c = CHR ''e'' \<or> c = CHR ''E'');
          m = takeWhile (\<lambda>c. \<not> is_e c) s;
          e = dropWhile (\<lambda>c. \<not> is_e c) s
      in case (mantissa m, exponent e) of
           (Some mv, Some ev) \<Rightarrow> Some (real_of_int sg * scale10 mv ev)
         | _ \<Rightarrow> None)"

subsection \<open>\<^verbatim>\<open>parse_amount_input\<close>\<close>

datatype error = ValueError | StoreError | IntegrityError

text \<open>
  The separator rules of \<^verbatim>\<open>parse_amount_input\<close> (the \<^verbatim>\<open>if\<close>/\<^verbatim>\<open>elif\<close> chain
  on \<^verbatim>\<open>s_body\<close>): with both separators the dots go and the comma becomes the decimal
  point; a lone comma becomes the decimal point; with dots only, two or more dots are all
  removed, and a single dot is removed when exactly three characters follow it and at most
  three precede it.
\<close>

definition normalize_separators :: "string \<Rightarrow> string" where
  "normalize_separators s_body =
     (if CHR ''.'' \<in> set s_body \<and> CHR '','' \<in> set s_body then
        replace '','' ''.'' (replace ''.'' [] s_body)
      else if CHR '','' \<in> set s_body \<and> CHR ''.'' \<notin> set s_body then
        replace '','' ''.'' s_body
      else if CHR ''.'' \<in> set s_body \<and> CHR '','' \<notin> set s_body then
        (let parts = split (CHR ''.'') s_body
         in if length parts > 2 then concat parts
            else (let integer_part = parts ! 0; frac_part = parts ! 1
                  in if length frac_part = 3 \<and> length integer_part \<le> 3
                     then integer_part @ frac_part
                     else s_body))
      else s_body)"

definition parse_amount_input :: "string \<Rightarrow> error + real" where
  "parse_amount_input s0 =
     (let s = strip s0
      in if s = [] then Inl ValueError
         else (let sign = (if hd s = CHR ''-'' then - 1 else 1);
                   s_body = (if hd s \<in> set ''+-'' then strip (tl s) else s);
                   s_body = normalize_separators s_body;
                   s_body = replace '' '' [] s_body;
                   s_body = replace [CHR 0x27] [] s_body
               in case py_float s_body of
                    None \<Rightarrow> Inl ValueError
                  | Some val \<Rightarrow> Inr (sign * val)))"

subsection \<open>\<^verbatim>\<open>format_amount_display\<close>\<close>

text \<open>
  The format specification \<^verbatim>\<open>f"{v:,.{decimals}f}"\<close>: the value rounded to
  \<^verbatim>\<open>decimals\<close> places (ties to even), the integer part grouped in threes by commas,
  a minus sign for negative values.
\<close>

definition round_half_even :: "real \<Rightarrow> int" where
  "round_half_even x =
     (let f = \<lfloor>x\<rfloor>; r = x - of_int f
      in if r < 1 / 2 then f else if 1 / 2 < r then f + 1 else if even f then f else f + 1)"

definition digit_char :: "int \<Rightarrow> char" where
  "digit_char n = ''0123456789'' ! nat n"

function dec :: "int \<Rightarrow> string" where
  "dec n = (if n < 10 then [digit_char n] else dec (n div 10) @ [digit_char (n mod 10)])"
  by pat_completeness auto
termination
  by (relation "measure nat") auto

declare dec.simps [simp del]

function group3 :: "string \<Rightarrow> string" where
  "group3 ds =
     (if length ds \<le> 3 then ds
      else group3 (take (length ds - 3) ds) @ CHR '','' # drop (length ds - 3) ds)"
  by pat_completeness auto
termination
  by (relation "measure length") auto

declare group3.simps [simp del]

definition zfill :: "nat \<Rightarrow> string \<Rightarrow> string" where
  "zfill w ds = replicate (w - length ds) (CHR ''0'') @ ds"

definition format_fixed :: "real \<Rightarrow> nat \<Rightarrow> string" where
  "format_fixed v decimals =
     (let n = round_half_even (\<bar>v\<bar> * 10 ^ decimals);
          ip = n div 10 ^ decimals;
          fp = n mod 10 ^ decimals
      in (if v < 0 then ''-'' else []) @ group3 (dec ip)
         @ (if decimals = 0 then [] else CHR ''.'' # zfill decimals (dec fp)))"

definition format_amount_display :: "real \<Rightarrow> nat \<Rightarrow> string" where
  "format_amount_display v decimals =
     (let s = format_fixed v decimals
      in replace ''_TMP_'' ''.'' (replace ''.'' '','' (replace '','' ''_TMP_'' s)))"

text \<open>
  What the three replacements of \<^verbatim>\<open>format_amount_display\<close> do to one character of
  the formatted number: comma and dot change places.
\<close>

definition swap_separator :: "char \<Rightarrow> char" where
  "swap_separator c = (if c = CHR '','' then CHR ''.'' else if c = CHR ''.'' then CHR '','' else c)"

section \<open>Dates\<close>

text \<open>
  The program parses dates with the standard library's \<^verbatim>\<open>datetime\<close>. What it uses of
  the library is a parameter of the model: \<^verbatim>\<open>datetime.fromisoformat\<close>,
  \<^verbatim>\<open>datetime.strptime\<close>, \<^verbatim>\<open>datetime.min\<close>, \<^verbatim>\<open>dt.date().isoformat()\<close> and
  the clock's \<^verbatim>\<open>date.today().isoformat()\<close>. A failed parse (the library raises) is
  \<open>None\<close>.
\<close>

record 'd datetime_lib =
  fromisoformat :: "string \<Rightarrow> 'd option"
  strptime :: "string \<Rightarrow> string \<Rightarrow> 'd option"
  datetime_min :: 'd
  date_isoformat :: "'d \<Rightarrow> string"
  today_isoformat :: string

text \<open>The loop of \<^verbatim>\<open>parse_date\<close> over the four formats.\<close>

fun try_formats :: "'d datetime_lib \<Rightarrow> string \<Rightarrow> string list \<Rightarrow> string" where
  "try_formats lib s [] = s"
| "try_formats lib s (fmt # fmts) =
     (case strptime lib s fmt of
        Some dt \<Rightarrow> date_isoformat lib dt
      | None \<Rightarrow> try_formats lib s fmts)"

definition parse_date :: "'d datetime_lib \<Rightarrow> string \<Rightarrow> string" where
  "parse_date lib s0 =
     (let s = strip s0
      in if s = [] then today_isoformat lib
         else (case fromisoformat lib s of
                 Some dt \<Rightarrow> date_isoformat lib dt
               | None \<Rightarrow> try_formats lib s [''%Y-%m-%d'', ''%d.%m.%Y'', ''%d/%m/%Y'', ''%d-%m-%Y'']))"

subsection \<open>A date library for evaluation\<close>

text \<open>
  An instance of the library on calendar dates \<open>(year, month, day)\<close>: ISO dates
  \<^verbatim>\<open>YYYY-MM-DD\<close>, and the directives \<^verbatim>\<open>%Y\<close> (four digits), \<^verbatim>\<open>%m\<close> and
  \<^verbatim>\<open>%d\<close> (one or two digits) of \<^verbatim>\<open>strptime\<close> in the four formats the program
  uses.
\<close>

type_synonym ymd = "int \<times> int \<times> int"

definition is_leap :: "int \<Rightarrow> bool" where
  "is_leap y = (y mod 4 = 0 \<and> (y mod 100 \<noteq> 0 \<or> y mod 400 = 0))"

definition days_in_month :: "int \<Rightarrow> int \<Rightarrow> int" where
  "days_in_month y m =
     (if m = 2 then (if is_leap y then 29 else 28)
      else if m \<in> {4, 6, 9, 11} then 30 else 31)"

definition mk_date :: "int \<Rightarrow> int \<Rightarrow> int \<Rightarrow> ymd option" where
  "mk_date y m d =
     (if 1 \<le> y \<and> y \<le> 9999 \<and> 1 \<le> m \<and> m \<le> 12 \<and> 1 \<le> d \<and> d \<le> days_in_month y m
      then Some (y, m, d) else None)"

definition all_digits :: "string \<Rightarrow> bool" where
  "all_digits s = list_all is_digit s"

definition ymd_fromisoformat :: "string \<Rightarrow> ymd option" where
  "ymd_fromisoformat s =
     (case split (CHR ''-'') s of
        [y, m, d] \<Rightarrow>
          if length y = 4 \<and> length m = 2 \<and> length d = 2 \<and> all_digits (y @ m @ d)
          then mk_date (int_of_digits y) (int_of_digits m) (int_of_digits d)
          else None
      | _ \<Rightarrow> None)"

definition day_month_field :: "string \<Rightarrow> bool" where
  "day_month_field s = (1 \<le> length s \<and> length s \<le> 2 \<and> all_digits s)"

definition year_field :: "string \<Rightarrow> bool" where
  "year_field s = (length s = 4 \<and> all_digits s)"

definition ymd_strptime :: "string \<Rightarrow> string \<Rightarrow> ymd option" where
  "ymd_strptime s fmt =
     (if fmt = ''%Y-%m-%d'' then
        (case split (CHR ''-'') s of
           [y, m, d] \<Rightarrow>
             if year_field y \<and> day_month_field m \<and> day_month_field d
             then mk_date (int_of_digits y) (int_of_digits m) (int_of_digits d) else None
         | _ \<Rightarrow> None)
      else if fmt \<in> set [''%d.%m.%Y'', ''%d/%m/%Y'', ''%d-%m-%Y''] then
        (case split (fmt ! 2) s of
           [d, m, y] \<Rightarrow>
             if year_field y \<and> day_month_field m \<and> day_month_field d
             then mk_date (int_of_digits y) (int_of_digits m) (int_of_digits d) else None
         | _ \<Rightarrow> None)
      else None)"

definition ymd_isoformat :: "ymd \<Rightarrow> string" where
  "ymd_isoformat t =
     (case t of (y, m, d) \<Rightarrow> zfill 4 (dec y) @ ''-'' @ zfill 2 (dec m) @ ''-'' @ zfill 2 (dec d))"

definition ymd_lib :: "string \<Rightarrow> ymd datetime_lib" where
  "ymd_lib today =
     \<lparr>fromisoformat = ymd_fromisoformat, strptime = ymd_strptime, datetime_min = (1, 1, 1),
      date_isoformat = ymd_isoformat, today_isoformat = today\<rparr>"

section \<open>The store (\<^verbatim>\<open>db.py\<close>)\<close>

text \<open>
  The \<^verbatim>\<open>transactions\<close> table with its \<^verbatim>\<open>AUTOINCREMENT\<close> key: the rows in
  insertion order and the largest key ever assigned (SQLite's \<^verbatim>\<open>sqlite_sequence\<close>).
  Every statement runs against the embedded engine and may raise; whether it goes through
  is the argument \<open>ok\<close> of each operation. A statement that raises leaves the table as it
  was.
\<close>

record db =
  rows :: "txn list"
  seq :: int

definition next_rowid :: "db \<Rightarrow> int" where
  "next_rowid conn = max (seq conn) (fold max (map tid (rows conn)) 0) + 1"

definition insert_row :: "bool \<Rightarrow> db \<Rightarrow> string \<Rightarrow> string \<Rightarrow> string \<Rightarrow> real \<Rightarrow> error + int \<times> db" where
  "insert_row ok conn date grp desc amt =
     (if \<not> ok then Inl StoreError
      else (let new_id = next_rowid conn;
                r = \<lparr>tid = new_id, tdate = date, tgroup = grp, description = desc, amount = amt\<rparr>
            in Inr (new_id, conn\<lparr>rows := rows conn @ [r], seq := new_id\<rparr>)))"

definition get_all :: "db \<Rightarrow> txn list" where
  "get_all conn = sort_key tid (rows conn)"

definition delete_ids :: "bool \<Rightarrow> db \<Rightarrow> int list \<Rightarrow> error + db" where
  "delete_ids ok conn ids =
     (if ids = [] then Inr conn
      else if \<not> ok then Inl StoreError
      else Inr (conn\<lparr>rows := filter (\<lambda>r. tid r \<notin> set ids) (rows conn)\<rparr>))"

definition clear_all :: "db \<Rightarrow> db" where
  "clear_all conn = conn\<lparr>rows := []\<rparr>"

text \<open>
  The \<^verbatim>\<open>INSERT\<close> with an explicit id that \<^verbatim>\<open>undo\<close> issues: an occupied id is an
  \<^verbatim>\<open>IntegrityError\<close>.
\<close>

definition insert_with_id :: "db \<Rightarrow> txn \<Rightarrow> error + db" where
  "insert_with_id conn r =
     (if tid r \<in> set (map tid (rows conn)) then Inl IntegrityError
      else Inr (conn\<lparr>rows := rows conn @ [r], seq := max (seq conn) (tid r)\<rparr>))"

section \<open>The ledger (\<^verbatim>\<open>CashApp\<close>)\<close>

text \<open>
  The columns whose headings call \<^verbatim>\<open>sort_by_column\<close>. The source passes the column's
  name; the five names are fixed by the heading commands, and \<^verbatim>\<open>description\<close> is the
  one that reaches the final \<^verbatim>\<open>else\<close> branch.
\<close>

datatype column = ColDate | ColGroup | ColDescription | ColAmount | ColPercent

record app =
  df :: "txn list"
  sort_col :: "column option"
  sort_asc :: bool
  undo_stack :: "action list"
  db_conn :: db

definition load_db_into_df :: "app \<Rightarrow> app" where
  "load_db_into_df s = s\<lparr>df := get_all (db_conn s)\<rparr>"

subsection \<open>Sorting\<close>

text \<open>
  \<^verbatim>\<open>DataFrame.sort_values(by=key, ascending=asc, kind="mergesort")\<close>: a stable sort.
  Descending, pandas reverses the rows, sorts them ascending and stably, and reverses the
  result, so that rows with equal keys keep their order in both directions.
\<close>

definition sort_values :: "('a \<Rightarrow> 'k::linorder) \<Rightarrow> bool \<Rightarrow> 'a list \<Rightarrow> 'a list" where
  "sort_values key ascending xs =
     (if ascending then sort_key key xs else rev (sort_key key (rev xs)))"

definition group_order :: "string list" where
  "group_order = [''Gelir'', ''Gider'', ''Aktif'', ''Pasif'']"

definition order_map_get :: "string \<Rightarrow> nat" where
  "order_map_get x =
     (if x \<in> set group_order then length (takeWhile (\<lambda>k. k \<noteq> x) group_order) else 9999)"

definition parse_key :: "'d datetime_lib \<Rightarrow> string \<Rightarrow> 'd" where
  "parse_key lib d =
     (case fromisoformat lib d of
        Some t \<Rightarrow> t
      | None \<Rightarrow> (case strptime lib d ''%d.%m.%Y'' of Some t \<Rightarrow> t | None \<Rightarrow> datetime_min lib))"

definition group_total :: "string \<Rightarrow> txn list \<Rightarrow> real" where
  "group_total g xs = sum_list (map amount (filter (\<lambda>r. tgroup r = g) xs))"

definition pct :: "txn list \<Rightarrow> txn \<Rightarrow> real" where
  "pct xs row =
     (let total_gelir = group_total ''Gelir'' xs;
          total_gider = group_total ''Gider'' xs;
          total_aktif = group_total ''Aktif'' xs;
          total_pasif = group_total ''Pasif'' xs;
          abs_total_gelir = (if total_gelir \<noteq> 0 then \<bar>total_gelir\<bar> else 0);
          abs_total_gider = (if total_gider \<noteq> 0 then \<bar>total_gider\<bar> else 0);
          abs_total_aktif_pasif =
            (if total_aktif \<noteq> 0 \<or> total_pasif \<noteq> 0 then \<bar>total_aktif\<bar> + \<bar>total_pasif\<bar> else 0);
          grp = tgroup row;
          amt = amount row
      in if grp = ''Gelir'' \<and> abs_total_gelir > 0 then (\<bar>amt\<bar> / abs_total_gelir) * 100
         else if grp = ''Gider'' \<and> abs_total_gider > 0 then (\<bar>amt\<bar> / abs_total_gider) * 100
         else if grp \<in> set [''Aktif'', ''Pasif''] \<and> abs_total_aktif_pasif > 0
           then (\<bar>amt\<bar> / abs_total_aktif_pasif) * 100
         else 0)"

text \<open>
  The ordering step of \<^verbatim>\<open>sort_by_column\<close>: the \<^verbatim>\<open>if\<close>/\<^verbatim>\<open>elif\<close> chain on the
  column, with the direction already decided.
\<close>

definition sort_df :: "('d::linorder) datetime_lib \<Rightarrow> column \<Rightarrow> bool \<Rightarrow> txn list \<Rightarrow> txn list" where
  "sort_df lib col asc xs =
     (case col of
        ColGroup \<Rightarrow> sort_values (\<lambda>r. order_map_get (tgroup r)) asc xs
      | ColAmount \<Rightarrow> sort_values amount asc xs
      | ColDate \<Rightarrow> sort_values (\<lambda>r. parse_key lib (tdate r)) asc xs
      | ColPercent \<Rightarrow> sort_values (pct xs) asc xs
      | ColDescription \<Rightarrow> sort_values (\<lambda>r. lower (description r)) asc xs)"

definition sort_by_column :: "('d::linorder) datetime_lib \<Rightarrow> column \<Rightarrow> app \<Rightarrow> app" where
  "sort_by_column lib col s =
     (let asc = (if sort_col s = Some col then \<not> sort_asc s else True)
      in s\<lparr>df := sort_df lib col asc (df s), sort_col := Some col, sort_asc := asc\<rparr>)"

text \<open>
  The step that ends every mutation:
  \<^verbatim>\<open>if self.sort_state["col"]: self.sort_by_column(self.sort_state["col"])\<close>,
  otherwise only the view is redrawn.
\<close>

definition reapply_sort :: "('d::linorder) datetime_lib \<Rightarrow> app \<Rightarrow> app" where
  "reapply_sort lib s =
     (case sort_col s of Some col \<Rightarrow> sort_by_column lib col s | None \<Rightarrow> s)"

subsection \<open>Adding, deleting, undoing\<close>

text \<open>What an operation shows to the user: the status line or the dialog it ends with.\<close>

datatype outcome =
    Added int
  | Deleted nat
  | UndoneAdd int
  | UndoneDelete nat
  | SampleLoaded
  | ShowInfo
  | ShowWarning
  | ShowError error
  | Cancelled

definition sign_for_group :: "string \<Rightarrow> real \<Rightarrow> real" where
  "sign_for_group grp raw_amt =
     (let mag = \<bar>raw_amt\<bar> in if grp \<in> set [''Gider'', ''Pasif''] then - mag else mag)"

definition add_item ::
  "('d::linorder) datetime_lib \<Rightarrow> bool \<Rightarrow> string \<Rightarrow> string \<Rightarrow> string \<Rightarrow> string \<Rightarrow> app
     \<Rightarrow> outcome \<times> app" where
  "add_item lib ok date_var group_var desc_var amount_var s =
     (let date_text = parse_date lib date_var;
          grp = group_var;
          desc = strip desc_var;
          amt_text = strip amount_var
      in if amt_text = [] then (ShowWarning, s)
         else (case parse_amount_input amt_text of
                 Inl e \<Rightarrow> (ShowError e, s)
               | Inr raw_amt \<Rightarrow>
                   (let amt_signed = sign_for_group grp raw_amt
                    in case insert_row ok (db_conn s) date_text grp desc amt_signed of
                         Inl e \<Rightarrow> (ShowError e, s)
                       | Inr (new_id, conn) \<Rightarrow>
                           (let new_row = \<lparr>tid = new_id, tdate = date_text, tgroup = grp,
                                           description = desc, amount = amt_signed\<rparr>;
                                s1 = s\<lparr>db_conn := conn, df := df s @ [new_row],
                                       undo_stack := push_undo (undo_stack s) (Add new_id)\<rparr>
                            in (Added new_id, reapply_sort lib s1)))))"

text \<open>
  \<^verbatim>\<open>remove_selected\<close>: \<open>sel\<close> is the selection of the tree (its item ids are row
  ids), \<open>confirm\<close> the answer to the confirmation dialog.
\<close>

definition snapshot_rows :: "txn list \<Rightarrow> int list \<Rightarrow> txn list" where
  "snapshot_rows xs ids =
     concat (map (\<lambda>rid. case filter (\<lambda>r. tid r = rid) xs of [] \<Rightarrow> [] | r # _ \<Rightarrow> [r]) ids)"

definition remove_selected ::
  "('d::linorder) datetime_lib \<Rightarrow> bool \<Rightarrow> bool \<Rightarrow> int list \<Rightarrow> app \<Rightarrow> outcome \<times> app" where
  "remove_selected lib ok confirm sel s =
     (if sel = [] then (ShowInfo, s)
      else if \<not> confirm then (Cancelled, s)
      else (let ids = sel;
                rs = snapshot_rows (df s) ids
            in case delete_ids ok (db_conn s) ids of
                 Inl e \<Rightarrow> (ShowError e, s)
               | Inr conn \<Rightarrow>
                   (let s1 = s\<lparr>db_conn := conn, df := filter (\<lambda>r. tid r \<notin> set ids) (df s)\<rparr>;
                        s2 = (if rs \<noteq> [] then s1\<lparr>undo_stack := push_undo (undo_stack s1) (Delete rs)\<rparr>
                              else s1)
                    in (Deleted (length ids), reapply_sort lib s2))))"

text \<open>
  The reinsertion loop of \<^verbatim>\<open>undo\<close>: the row goes back under its own id, or under a
  fresh one when that id is taken; the result carries the ids used.
\<close>

fun reinsert_rows :: "db \<Rightarrow> int list \<Rightarrow> txn list \<Rightarrow> db \<times> int list" where
  "reinsert_rows conn reinserted [] = (conn, reinserted)"
| "reinsert_rows conn reinserted (r # rs) =
     (case insert_with_id conn r of
        Inr conn' \<Rightarrow> reinsert_rows conn' (reinserted @ [tid r]) rs
      | Inl _ \<Rightarrow>
          (case insert_row True conn (tdate r) (tgroup r) (description r) (amount r) of
             Inr (new_id, conn') \<Rightarrow> reinsert_rows conn' (reinserted @ [new_id]) rs
           | Inl _ \<Rightarrow> reinsert_rows conn reinserted rs))"

definition undo :: "('d::linorder) datetime_lib \<Rightarrow> bool \<Rightarrow> app \<Rightarrow> outcome \<times> app" where
  "undo lib ok s =
     (if undo_stack s = [] then (ShowInfo, s)
      else (let act = last (undo_stack s);
                s0 = s\<lparr>undo_stack := butlast (undo_stack s)\<rparr>
            in case act of
                 Add rid \<Rightarrow>
                   (let conn = (case delete_ids ok (db_conn s0) [rid] of
                                  Inl _ \<Rightarrow> db_conn s0
                                | Inr c \<Rightarrow> c);
                        s1 = s0\<lparr>db_conn := conn, df := filter (\<lambda>r. tid r \<noteq> rid) (df s0)\<rparr>
                    in (UndoneAdd rid, reapply_sort lib s1))
               | Delete rs \<Rightarrow>
                   if rs = [] then (ShowError ValueError, s0)
                   else if \<not> ok then (ShowError StoreError, s0)
                   else (let (conn, reinserted) = reinsert_rows (db_conn s0) [] rs;
                             s1 = load_db_into_df (s0\<lparr>db_conn := conn\<rparr>)
                         in (UndoneDelete (length reinserted), reapply_sort lib s1))))"

text \<open>\<^verbatim>\<open>load_sample\<close>: the store is replaced by six sample rows and the undo stack cleared.\<close>

definition sample :: "(string \<times> string \<times> string \<times> real) list" where
  "sample =
     [(''2025-01-05'', ''Gelir'', ''Satis'', 5000),
      (''2025-01-20'', ''Gider'', ''Kira'', 1200),
      (''2025-02-10'', ''Gider'', ''Tedarik'', 1800),
      (''2025-02-15'', ''Gelir'', ''Hizmet'', 3000),
      (''2025-03-01'', ''Aktif'', ''Bina'', 25000),
      (''2025-03-15'', ''Pasif'', ''Kredi'', 10000)]"

definition insert_sample :: "db \<Rightarrow> string \<times> string \<times> string \<times> real \<Rightarrow> db" where
  "insert_sample conn r =
     (case r of (d, g, desc, a) \<Rightarrow>
        (case insert_row True conn d g desc (sign_for_group g a) of
           Inr (_, conn') \<Rightarrow> conn'
         | Inl _ \<Rightarrow> conn))"

definition load_sample :: "('d::linorder) datetime_lib \<Rightarrow> bool \<Rightarrow> app \<Rightarrow> outcome \<times> app" where
  "load_sample lib ok s =
     (if \<not> ok then (ShowError StoreError, s)
      else (let conn = fold (\<lambda>r c. insert_sample c r) sample (clear_all (db_conn s));
                s1 = load_db_into_df (s\<lparr>db_conn := conn\<rparr>);
                s2 = s1\<lparr>undo_stack := []\<rparr>
            in (SampleLoaded, reapply_sort lib s2)))"

section \<open>Example states\<close>

text \<open>
  The state after \<^verbatim>\<open>__init__\<close> on an empty database, and the one after
  \<^verbatim>\<open>load_sample\<close>, with the calendar-date library and a fixed clock.
\<close>

definition example_lib :: "ymd datetime_lib" where
  "example_lib = ymd_lib ''2026-01-15''"

definition init_app :: app where
  "init_app = \<lparr>df = [], sort_col = None, sort_asc = True, undo_stack = [],
                db_conn = \<lparr>rows = [], seq = 0\<rparr>\<rparr>"

definition row :: "int \<Rightarrow> string \<Rightarrow> string \<Rightarrow> string \<Rightarrow> real \<Rightarrow> txn" where
  "row i d g desc a = \<lparr>tid = i, tdate = d, tgroup = g, description = desc, amount = a\<rparr>"

definition sample_app :: app where
  "sample_app = snd (load_sample example_lib True init_app)"

definition amount_sorted_app :: app where
  "amount_sorted_app = sort_by_column example_lib ColAmount sample_app"

text \<open>
  Four rows added one after the other, each half of its group's total, and the table then
  sorted by the percent column.
\<close>

definition tied_app :: app where
  "tied_app =
     sort_by_column example_lib ColPercent
       (foldl (\<lambda>s (g, a). snd (add_item example_lib True [] g ''x'' a s)) init_app
          [(''Gelir'', ''50''), (''Gider'', ''30''), (''Gelir'', ''50''), (''Gider'', ''30'')])"

section \<open>Invariants of the ledger\<close>

text \<open>
  Every id of the in-memory table is an id of the store, and the table is in the order of
  the active sort (when there is one).
\<close>

definition mirrors_store :: "app \<Rightarrow> bool" where
  "mirrors_store s = (set (map tid (df s)) \<subseteq> set (map tid (rows (db_conn s))))"

definition in_sort_order :: "('d::linorder) datetime_lib \<Rightarrow> app \<Rightarrow> bool" where
  "in_sort_order lib s =
     (case sort_col s of None \<Rightarrow> True | Some c \<Rightarrow> sort_df lib c (sort_asc s) (df s) = df s)"

section \<open>Properties\<close>

lemma push_undo_length: "length st \<le> UNDO_STACK_MAX \<Longrightarrow> length (push_undo st a) \<le> UNDO_STACK_MAX"
  by (simp add: push_undo_def Let_def)

lemma tl_drop_one: "tl xs = drop 1 xs"
  by (cases xs) simp_all

lemma push_undo_drop:
  "length st \<le> UNDO_STACK_MAX \<Longrightarrow>
   push_undo st a = drop (length st + 1 - UNDO_STACK_MAX) (st @ [a])"
proof (cases "length st = UNDO_STACK_MAX")
  case True
  then have "push_undo st a = tl (st @ [a])"
    by (simp add: push_undo_def Let_def)
  also have "\<dots> = drop 1 (st @ [a])"
    by (rule tl_drop_one)
  finally show ?thesis using True by (simp del: drop_append)
next
  case False
  assume "length st \<le> UNDO_STACK_MAX"
  with False have "length st < UNDO_STACK_MAX" by simp
  then show ?thesis by (simp add: push_undo_def Let_def)
qed

lemma foldl_push_undo:
  "length st \<le> UNDO_STACK_MAX \<Longrightarrow>
   foldl push_undo st es = drop (length st + length es - UNDO_STACK_MAX) (st @ es)
   \<and> length (foldl push_undo st es) \<le> UNDO_STACK_MAX"
proof (induction es arbitrary: st)
  case Nil
  then show ?case by simp
next
  case (Cons e es)
  define k where "k = length st + 1 - UNDO_STACK_MAX"
  have len: "length (push_undo st e) \<le> UNDO_STACK_MAX"
    using Cons.prems by (rule push_undo_length)
  have step: "push_undo st e = drop k (st @ [e])"
    unfolding k_def using Cons.prems by (rule push_undo_drop)
  have l: "length (push_undo st e) = length st + 1 - k"
    by (simp add: step)
  have kk: "k \<le> length st" by (simp add: k_def UNDO_STACK_MAX_def)
  have ar: "length st + 1 - k + length es - UNDO_STACK_MAX + k
      = length st + length (e # es) - UNDO_STACK_MAX"
    using Cons.prems by (simp add: k_def)
  have "foldl push_undo (push_undo st e) es
      = drop (length (push_undo st e) + length es - UNDO_STACK_MAX) (push_undo st e @ es)"
    using Cons.IH [OF len] by blast
  also have "length (push_undo st e) = length st + 1 - k"
    by (rule l)
  also have "push_undo st e @ es = drop k (st @ e # es)"
    using kk by (simp add: step)
  also have "drop (length st + 1 - k + length es - UNDO_STACK_MAX) (drop k (st @ e # es))
      = drop (length st + length (e # es) - UNDO_STACK_MAX) (st @ e # es)"
    by (simp only: drop_drop ar)
  finally show ?case using Cons.IH [OF len] by simp
qed


subsection \<open>The undo stack is bounded\<close>

lemma undo_stack_sort_by_column [simp]:
  "undo_stack (sort_by_column lib c s) = undo_stack s"
  by (simp add: sort_by_column_def Let_def)

lemma undo_stack_reapply_sort [simp]:
  "undo_stack (reapply_sort lib s) = undo_stack s"
  by (simp add: reapply_sort_def split: option.splits)

lemma undo_stack_add_item:
  "undo_stack (snd (add_item lib ok d g de am s)) =
     (case fst (add_item lib ok d g de am s) of
        Added i \<Rightarrow> push_undo (undo_stack s) (Add i)
      | _ \<Rightarrow> undo_stack s)"
  by (simp add: add_item_def Let_def split: sum.splits prod.splits)

lemma undo_stack_remove_selected:
  "undo_stack (snd (remove_selected lib ok cf sel s)) = undo_stack s
   \<or> (\<exists>rs. undo_stack (snd (remove_selected lib ok cf sel s)) = push_undo (undo_stack s) (Delete rs))"
  by (auto simp: remove_selected_def Let_def split: sum.splits)

lemma undo_stack_undo:
  "undo_stack (snd (undo lib ok s)) = butlast (undo_stack s)"
  by (simp add: undo_def Let_def load_db_into_df_def split: action.splits prod.splits)

lemma undo_stack_load_sample:
  "undo_stack (snd (load_sample lib ok s)) = (if ok then [] else undo_stack s)"
  by (simp add: load_sample_def Let_def load_db_into_df_def)

text \<open>
  C7. The undo log never holds more than 100 entries. A push appends the entry and, when
  the log was full, drops the entry at index 0; a run of pushes keeps the last 100 entries
  of the old log followed by the new ones (so 101 pushes on an empty log leave entries 2 to
  101). Every operation of the ledger (add, delete, undo, sample load, sort) keeps the
  bound, and a successful add changes the log by exactly one such push.
\<close>

theorem undo_log_bounded:
  assumes "length (undo_stack s) \<le> UNDO_STACK_MAX"
  shows "length (push_undo (undo_stack s) a) \<le> UNDO_STACK_MAX
    \<and> push_undo (undo_stack s) a =
        (if length (undo_stack s) < UNDO_STACK_MAX then undo_stack s @ [a]
         else tl (undo_stack s) @ [a])
    \<and> foldl push_undo (undo_stack s) es =
        drop (length (undo_stack s) + length es - UNDO_STACK_MAX) (undo_stack s @ es)
    \<and> length (foldl push_undo (undo_stack s) es) \<le> UNDO_STACK_MAX
    \<and> (fst (add_item lib ok d g de am s) = Added i \<longrightarrow>
         undo_stack (snd (add_item lib ok d g de am s)) = push_undo (undo_stack s) (Add i))
    \<and> length (undo_stack (snd (add_item lib ok d g de am s))) \<le> UNDO_STACK_MAX
    \<and> length (undo_stack (snd (remove_selected lib ok cf sel s))) \<le> UNDO_STACK_MAX
    \<and> length (undo_stack (snd (undo lib ok s))) \<le> UNDO_STACK_MAX
    \<and> length (undo_stack (snd (load_sample lib ok s))) \<le> UNDO_STACK_MAX
    \<and> length (undo_stack (sort_by_column lib c s)) \<le> UNDO_STACK_MAX"
proof -
  note len = push_undo_length [OF assms]
  have push: "push_undo (undo_stack s) a =
      (if length (undo_stack s) < UNDO_STACK_MAX then undo_stack s @ [a]
       else tl (undo_stack s) @ [a])"
  proof (cases "undo_stack s")
    case Nil
    then show ?thesis by (simp add: push_undo_def UNDO_STACK_MAX_def)
  next
    case (Cons x xs)
    then show ?thesis using assms by (auto simp: push_undo_def Let_def)
  qed
  have added: "fst (add_item lib ok d g de am s) = Added i \<longrightarrow>
      undo_stack (snd (add_item lib ok d g de am s)) = push_undo (undo_stack s) (Add i)"
    by (simp add: undo_stack_add_item)
  have add: "length (undo_stack (snd (add_item lib ok d g de am s))) \<le> UNDO_STACK_MAX"
    using assms len by (simp add: undo_stack_add_item split: outcome.splits)
  have del: "length (undo_stack (snd (remove_selected lib ok cf sel s))) \<le> UNDO_STACK_MAX"
    using undo_stack_remove_selected [of lib ok cf sel s] assms len by auto
  have un: "length (undo_stack (snd (undo lib ok s))) \<le> UNDO_STACK_MAX"
    using assms by (simp add: undo_stack_undo)
  have ld: "length (undo_stack (snd (load_sample lib ok s))) \<le> UNDO_STACK_MAX"
    using assms by (simp add: undo_stack_load_sample)
  show ?thesis
    using len [of a] push foldl_push_undo [OF assms, of es] added add del un ld assms
    by simp
qed

theorem undo_log_bounded_witness:
  "length (undo_stack init_app) \<le> UNDO_STACK_MAX
   \<and> foldl push_undo (undo_stack init_app) (map Add [1..101]) = map Add [2..101]
   \<and> length (foldl push_undo (undo_stack init_app) (map Add [1..101])) \<le> UNDO_STACK_MAX
   \<and> fst (add_item example_lib True [] ''Gelir'' ''Satis'' ''5000'' init_app) = Added 1
   \<and> undo_stack (snd (add_item example_lib True [] ''Gelir'' ''Satis'' ''5000'' init_app)) = [Add 1]"
proof -
  have h: "length (undo_stack init_app) \<le> UNDO_STACK_MAX"
    by (simp add: init_app_def)
  have a: "fst (add_item example_lib True [] ''Gelir'' ''Satis'' ''5000'' init_app) = Added 1"
    by code_simp
  have d: "drop (length (undo_stack init_app) + length (map Add [1..101]) - UNDO_STACK_MAX)
      (undo_stack init_app @ map Add [1..101]) = map Add [2..101]"
    by code_simp
  have p: "push_undo (undo_stack init_app) (Add 1) = [Add 1]"
    by code_simp
  note t = undo_log_bounded [OF h, of "Add 1" "map Add [1..101]" example_lib True "[]" "''Gelir''"
      "''Satis''" "''5000''" 1 True "[]" ColAmount]
  from t have f: "foldl push_undo (undo_stack init_app) (map Add [1..101]) = map Add [2..101]"
    by (simp only: d)
  from t have l: "length (foldl push_undo (undo_stack init_app) (map Add [1..101])) \<le> UNDO_STACK_MAX"
    by blast
  from t a have u: "undo_stack (snd (add_item example_lib True [] ''Gelir'' ''Satis'' ''5000'' init_app))
      = [Add 1]"
    by (simp only: p)
  show ?thesis
    using h a f l u by blast
qed

subsection \<open>Blank dates\<close>

lemma strip_empty_iff: "strip s = [] \<longleftrightarrow> (\<forall>c\<in>set s. is_space c)"
proof
  assume e: "strip s = []"
  show "\<forall>c\<in>set s. is_space c"
  proof (rule ccontr)
    assume "\<not> (\<forall>c\<in>set s. is_space c)"
    then have ne: "dropWhile is_space s \<noteq> []"
      by (simp add: dropWhile_eq_Nil_conv)
    then have "\<not> is_space (hd (dropWhile is_space s))"
      by (rule hd_dropWhile)
    moreover have "hd (dropWhile is_space s) \<in> set (rev (dropWhile is_space s))"
      using ne by simp
    ultimately have "dropWhile is_space (rev (dropWhile is_space s)) \<noteq> []"
      by (auto simp: dropWhile_eq_Nil_conv)
    with e show False by (simp add: strip_def)
  qed
next
  assume "\<forall>c\<in>set s. is_space c"
  then have d: "dropWhile is_space s = []"
    by (simp add: dropWhile_eq_Nil_conv)
  show "strip s = []"
    by (simp only: strip_def d rev.simps dropWhile.simps)
qed

lemma try_formats_none:
  "(\<forall>fmt\<in>set fmts. strptime lib s fmt = None) \<Longrightarrow> try_formats lib s fmts = s"
  by (induction fmts) simp_all

text \<open>
  C10. For a date text that is empty or holds only whitespace, \<^verbatim>\<open>parse_date\<close>
  returns today's date in ISO form, not the text. The text itself (stripped) comes back
  only when it is not blank and neither \<^verbatim>\<open>fromisoformat\<close> nor any of the four
  \<^verbatim>\<open>strptime\<close> formats parses it.
\<close>

theorem parse_date_blank_is_today:
  "((\<forall>c\<in>set s. is_space c) \<longrightarrow> parse_date lib s = today_isoformat lib)
   \<and> (strip s \<noteq> [] \<and> fromisoformat lib (strip s) = None
        \<and> (\<forall>fmt\<in>set [''%Y-%m-%d'', ''%d.%m.%Y'', ''%d/%m/%Y'', ''%d-%m-%Y''].
              strptime lib (strip s) fmt = None)
       \<longrightarrow> parse_date lib s = strip s)"
proof (intro conjI impI)
  assume "\<forall>c\<in>set s. is_space c"
  then have "strip s = []" by (simp add: strip_empty_iff)
  then show "parse_date lib s = today_isoformat lib"
    by (simp add: parse_date_def)
next
  assume a: "strip s \<noteq> [] \<and> fromisoformat lib (strip s) = None
    \<and> (\<forall>fmt\<in>set [''%Y-%m-%d'', ''%d.%m.%Y'', ''%d/%m/%Y'', ''%d-%m-%Y''].
          strptime lib (strip s) fmt = None)"
  then have "try_formats lib (strip s) [''%Y-%m-%d'', ''%d.%m.%Y'', ''%d/%m/%Y'', ''%d-%m-%Y'']
      = strip s"
    by (intro try_formats_none) blast
  with a show "parse_date lib s = strip s"
    by (simp add: parse_date_def Let_def)
qed

theorem parse_date_blank_is_today_witness:
  "list_all is_space ''   ''
   \<and> parse_date example_lib ''   '' = ''2026-01-15''
   \<and> strip '' yarin '' \<noteq> [] \<and> fromisoformat example_lib (strip '' yarin '') = None
   \<and> strptime example_lib (strip '' yarin '') ''%Y-%m-%d'' = None
   \<and> strptime example_lib (strip '' yarin '') ''%d.%m.%Y'' = None
   \<and> strptime example_lib (strip '' yarin '') ''%d/%m/%Y'' = None
   \<and> strptime example_lib (strip '' yarin '') ''%d-%m-%Y'' = None
   \<and> parse_date example_lib '' yarin '' = ''yarin''"
proof -
  have h1: "list_all is_space ''   ''"
    by code_simp
  have h2: "strip '' yarin '' \<noteq> [] \<and> fromisoformat example_lib (strip '' yarin '') = None
      \<and> strptime example_lib (strip '' yarin '') ''%Y-%m-%d'' = None
      \<and> strptime example_lib (strip '' yarin '') ''%d.%m.%Y'' = None
      \<and> strptime example_lib (strip '' yarin '') ''%d/%m/%Y'' = None
      \<and> strptime example_lib (strip '' yarin '') ''%d-%m-%Y'' = None"
    by code_simp
  have t: "today_isoformat example_lib = ''2026-01-15''"
    by code_simp
  have y: "strip '' yarin '' = ''yarin''"
    by code_simp
  from parse_date_blank_is_today [of "''   ''" example_lib] h1 t
  have a: "parse_date example_lib ''   '' = ''2026-01-15''"
    by (simp add: list_all_iff)
  from parse_date_blank_is_today [of "'' yarin ''" example_lib] h2 y
  have b: "parse_date example_lib '' yarin '' = ''yarin''"
    by simp
  show ?thesis using h1 h2 a b by blast
qed

subsection \<open>Sorting keeps the rows\<close>

lemma mset_sort_values [simp]: "mset (sort_values f a xs) = mset xs"
  by (simp add: sort_values_def)

lemma mset_sort_df [simp]: "mset (sort_df lib c a xs) = mset xs"
  by (simp add: sort_df_def split: column.splits)

lemma set_sort_df [simp]: "set (sort_df lib c a xs) = set xs"
  using mset_sort_df [of lib c a xs] by (metis set_mset_mset)

lemma df_sort_by_column: "mset (df (sort_by_column lib c s)) = mset (df s)"
  by (simp add: sort_by_column_def Let_def)

lemma df_reapply_sort: "mset (df (reapply_sort lib s)) = mset (df s)"
  by (simp add: reapply_sort_def df_sort_by_column split: option.splits)

lemma db_conn_reapply_sort [simp]: "db_conn (reapply_sort lib s) = db_conn s"
  by (simp add: reapply_sort_def sort_by_column_def Let_def split: option.splits)

lemma strip_strip [simp]: "strip (strip s) = strip s"
proof -
  define t where "t = dropWhile is_space s"
  define u where "u = dropWhile is_space (rev t)"
  have st: "strip s = rev u"
    by (simp add: strip_def t_def u_def)
  have uu: "dropWhile is_space u = u"
    unfolding u_def by (rule dropWhile_idem)
  have ru: "dropWhile is_space (rev u) = rev u"
  proof (cases "u = []")
    case True
    then show ?thesis by simp
  next
    case False
    have split: "rev t = takeWhile is_space (rev t) @ u"
      unfolding u_def by simp
    from False split have tne: "t \<noteq> []" by auto
    have "last (rev t) = last u"
      using False by (subst split) simp
    then have "hd (rev u) = hd t"
      using tne False by (simp add: hd_rev last_rev)
    moreover have "\<not> is_space (hd t)"
      using tne unfolding t_def by (rule hd_dropWhile)
    ultimately show ?thesis
      using False by (simp add: dropWhile_eq_self_iff)
  qed
  have "strip (rev u) = rev (dropWhile is_space (rev (dropWhile is_space (rev u))))"
    by (simp add: strip_def)
  also have "\<dots> = rev u"
    by (simp only: ru rev_rev_ident uu)
  finally show ?thesis by (simp only: st)
qed

lemma parse_amount_input_blank: "strip s = [] \<Longrightarrow> parse_amount_input s = Inl ValueError"
  by (simp add: parse_amount_input_def)

lemma parse_amount_input_strip [simp]: "parse_amount_input (strip s) = parse_amount_input s"
  by (simp add: parse_amount_input_def)

subsection \<open>What a successful add stores\<close>

lemma add_item_success:
  assumes "parse_amount_input amount_var = Inr m"
  shows "add_item lib True date_var grp desc_var amount_var s =
    (Added (next_rowid (db_conn s)),
     reapply_sort lib
       (s\<lparr>db_conn := (db_conn s)\<lparr>rows := rows (db_conn s) @
              [\<lparr>tid = next_rowid (db_conn s), tdate = parse_date lib date_var, tgroup = grp,
                description = strip desc_var, amount = sign_for_group grp m\<rparr>],
              seq := next_rowid (db_conn s)\<rparr>,
           df := df s @
              [\<lparr>tid = next_rowid (db_conn s), tdate = parse_date lib date_var, tgroup = grp,
                description = strip desc_var, amount = sign_for_group grp m\<rparr>],
           undo_stack := push_undo (undo_stack s) (Add (next_rowid (db_conn s)))\<rparr>))"
proof -
  have "strip amount_var \<noteq> []"
    using assms parse_amount_input_blank [of amount_var] by auto
  then show ?thesis
    using assms by (simp add: add_item_def insert_row_def Let_def)
qed

text \<open>
  C5. A valid add stores the parsed amount with the sign of its group: for the groups
  Gider (expense) and Pasif (liability) the stored amount is \<open>- \<bar>m\<bar>\<close>, for Gelir (income)
  and Aktif (asset) it is \<open>\<bar>m\<bar>\<close>, whatever sign the user typed. The stored row is the
  last row of the table in the store and a row of the in-memory table.
\<close>

theorem add_item_amount_sign:
  assumes "parse_amount_input amount_var = Inr m"
    and "s' = snd (add_item lib True date_var grp desc_var amount_var s)"
    and "r = \<lparr>tid = next_rowid (db_conn s), tdate = parse_date lib date_var, tgroup = grp,
              description = strip desc_var,
              amount = (if grp = ''Gider'' \<or> grp = ''Pasif'' then - \<bar>m\<bar> else \<bar>m\<bar>)\<rparr>"
  shows "fst (add_item lib True date_var grp desc_var amount_var s) = Added (tid r)
    \<and> rows (db_conn s') = rows (db_conn s) @ [r]
    \<and> r \<in> set (df s')
    \<and> (grp \<in> {''Gider'', ''Pasif''} \<longrightarrow> amount r = - \<bar>m\<bar>)
    \<and> (grp \<in> {''Gelir'', ''Aktif''} \<longrightarrow> amount r = \<bar>m\<bar>)"
proof -
  have sg: "sign_for_group grp m = (if grp = ''Gider'' \<or> grp = ''Pasif'' then - \<bar>m\<bar> else \<bar>m\<bar>)"
    by (simp add: sign_for_group_def Let_def)
  note eq = add_item_success [OF assms(1), of lib date_var grp desc_var s]
  have "r \<in># mset (df s')"
    unfolding assms(2) eq snd_conv by (simp only: df_reapply_sort) (simp add: sg assms(3))
  then have "r \<in> set (df s')" by simp
  moreover have "rows (db_conn s') = rows (db_conn s) @ [r]"
    unfolding assms(2) eq snd_conv by (simp add: sg assms(3))
  moreover have "fst (add_item lib True date_var grp desc_var amount_var s) = Added (tid r)"
    unfolding eq by (simp add: assms(3))
  ultimately show ?thesis
    by (auto simp: assms(3))
qed

theorem add_item_amount_sign_witness:
  "parse_amount_input ''+12,50'' = Inr 12.5
   \<and> fst (add_item example_lib True [] ''Gider'' ''Kira'' ''+12,50'' init_app) = Added 1
   \<and> rows (db_conn (snd (add_item example_lib True [] ''Gider'' ''Kira'' ''+12,50'' init_app)))
       = [row 1 ''2026-01-15'' ''Gider'' ''Kira'' (- 12.5)]
   \<and> row 1 ''2026-01-15'' ''Gider'' ''Kira'' (- 12.5)
       \<in> set (df (snd (add_item example_lib True [] ''Gider'' ''Kira'' ''+12,50'' init_app)))
   \<and> ''Gider'' \<in> {''Gider'', ''Pasif''}
   \<and> amount (row 1 ''2026-01-15'' ''Gider'' ''Kira'' (- 12.5)) = - \<bar>12.5\<bar>"
proof -
  have p: "parse_amount_input ''+12,50'' = Inr 12.5"
    by code_simp
  have r: "row 1 ''2026-01-15'' ''Gider'' ''Kira'' (- 12.5) =
      \<lparr>tid = next_rowid (db_conn init_app), tdate = parse_date example_lib [], tgroup = ''Gider'',
       description = strip ''Kira'',
       amount = (if ''Gider'' = ''Gider'' \<or> ''Gider'' = ''Pasif'' then - \<bar>12.5\<bar> else \<bar>12.5\<bar>)\<rparr>"
    by code_simp
  have e: "rows (db_conn init_app) = []"
    by (simp add: init_app_def)
  from add_item_amount_sign [OF p refl r]
  show ?thesis
    using p by (simp add: e row_def)
qed

subsection \<open>A failed insert\<close>

text \<open>
  C8. When the insert into the store fails, \<^verbatim>\<open>add_item\<close> ends with the error
  (shown in its error dialog) and leaves the state as it was: no row is appended to the
  in-memory table, nothing is pushed on the undo stack, and the store is unchanged.
\<close>

theorem add_item_store_error:
  assumes "parse_amount_input amount_var = Inr m"
  shows "insert_row False (db_conn s) (parse_date lib date_var) grp (strip desc_var)
           (sign_for_group grp m) = Inl StoreError
    \<and> add_item lib False date_var grp desc_var amount_var s = (ShowError StoreError, s)"
proof -
  have "strip amount_var \<noteq> []"
    using assms parse_amount_input_blank [of amount_var] by auto
  then show ?thesis
    using assms by (simp add: add_item_def insert_row_def Let_def)
qed

theorem add_item_store_error_witness:
  "parse_amount_input ''5000'' = Inr 5000
   \<and> add_item example_lib False ''2025-01-05'' ''Gelir'' ''Satis'' ''5000'' init_app
       = (ShowError StoreError, init_app)"
proof -
  have p: "parse_amount_input ''5000'' = Inr 5000"
    by code_simp
  from add_item_store_error [OF p, of init_app example_lib "''2025-01-05''" "''Gelir''" "''Satis''"]
  show ?thesis using p by simp
qed

subsection \<open>Stable sorting in both directions\<close>

lemma filter_key_sort_values:
  "filter (\<lambda>x. f x = k) (sort_values f b xs) = filter (\<lambda>x. f x = k) xs"
proof (cases b)
  case True
  then show ?thesis by (simp add: sort_values_def sort_key_stable)
next
  case False
  have "filter (\<lambda>x. f x = k) (rev (sort_key f (rev xs)))
      = rev (filter (\<lambda>x. f x = k) (sort_key f (rev xs)))"
    by (simp add: rev_filter)
  also have "\<dots> = rev (filter (\<lambda>x. f x = k) (rev xs))"
    by (simp only: sort_key_stable)
  also have "\<dots> = filter (\<lambda>x. f x = k) xs"
    by (simp add: rev_filter)
  finally show ?thesis using False by (simp add: sort_values_def)
qed

lemma sort_key_determined:
  assumes m: "mset xs = mset ys"
    and st: "\<And>k. filter (\<lambda>x. f x = k) xs = filter (\<lambda>x. f x = k) ys"
  shows "sort_key f xs = sort_key f ys"
proof (rule properties_for_sort_key)
  show "mset (sort_key f ys) = mset xs"
    using m by simp
next
  fix k
  assume "k \<in> set (sort_key f ys)"
  have "filter (\<lambda>x. f k = f x) zs = filter (\<lambda>x. f x = f k) zs" for zs
    by (rule filter_cong) auto
  then show "filter (\<lambda>x. f k = f x) (sort_key f ys) = filter (\<lambda>x. f k = f x) xs"
    by (simp add: sort_key_stable st)
next
  show "sorted (map f (sort_key f ys))"
    by simp
qed

lemma sort_values_determined:
  assumes m: "mset xs = mset ys"
    and st: "\<And>k. filter (\<lambda>x. f x = k) xs = filter (\<lambda>x. f x = k) ys"
  shows "sort_values f a xs = sort_values f a ys"
proof (cases a)
  case True
  then show ?thesis
    using sort_key_determined [OF m st] by (simp add: sort_values_def)
next
  case False
  have "sort_key f (rev xs) = sort_key f (rev ys)"
  proof (rule sort_key_determined)
    show "mset (rev xs) = mset (rev ys)" using m by simp
  next
    fix k
    show "filter (\<lambda>x. f x = k) (rev xs) = filter (\<lambda>x. f x = k) (rev ys)"
      using st [of k] by (simp add: rev_filter [symmetric])
  qed
  then show ?thesis using False by (simp add: sort_values_def)
qed

lemma sort_values_twice: "sort_values f a (sort_values f b xs) = sort_values f a xs"
  by (rule sort_values_determined) (simp_all add: filter_key_sort_values)

lemma sort_values_filter: "sort_values f a (filter P xs) = filter P (sort_values f a xs)"
proof (cases a)
  case True
  then show ?thesis by (simp add: sort_values_def filter_sort)
next
  case False
  have "sort_key f (rev (filter P xs)) = filter P (sort_key f (rev xs))"
    by (simp add: rev_filter filter_sort)
  then show ?thesis using False by (simp add: sort_values_def rev_filter)
qed

lemma group_total_mset: "group_total g xs = sum_mset (image_mset amount (filter_mset (\<lambda>r. tgroup r = g) (mset xs)))"
proof -
  have "sum_list (map amount (filter (\<lambda>r. tgroup r = g) xs))
      = sum_mset (mset (map amount (filter (\<lambda>r. tgroup r = g) xs)))"
    by (simp only: sum_mset_sum_list)
  then show ?thesis by (simp add: group_total_def)
qed

lemma group_total_cong: "mset xs = mset ys \<Longrightarrow> group_total g xs = group_total g ys"
  by (simp add: group_total_mset)

lemma pct_cong: "mset xs = mset ys \<Longrightarrow> pct xs = pct ys"
  by (rule ext) (simp add: pct_def group_total_cong [of xs ys])

lemma sort_df_twice: "sort_df lib c a (sort_df lib c b xs) = sort_df lib c a xs"
proof (cases c)
  case ColPercent
  have "pct (sort_values (pct xs) b xs) = pct xs"
    by (rule pct_cong) simp
  then show ?thesis
    using ColPercent by (simp add: sort_df_def sort_values_twice)
qed (simp_all add: sort_df_def sort_values_twice)

lemma sort_df_filter:
  "c \<noteq> ColPercent \<Longrightarrow> sort_df lib c a (filter P xs) = filter P (sort_df lib c a xs)"
  by (cases c) (simp_all add: sort_df_def sort_values_filter)

subsection \<open>Sorting twice\<close>

lemma sort_by_column_twice:
  "sort_by_column lib c (sort_by_column lib c s) =
     s\<lparr>df := sort_df lib c (sort_col s = Some c \<and> sort_asc s) (df s),
       sort_col := Some c,
       sort_asc := (sort_col s = Some c \<and> sort_asc s)\<rparr>"
  by (simp add: sort_by_column_def Let_def sort_df_twice)

text \<open>
  C2, as the code has it. The ordering step of \<^verbatim>\<open>sort_by_column\<close> is idempotent:
  ordering the rows by a column in a direction and ordering the result again by the same
  column in the same direction gives the same rows in the same order. The operation
  itself takes no direction: a second call on the same column flips the direction, so two
  calls in succession leave the rows in the descending order of the column (ascending
  when the table was sorted descending by that column before), which is the order of one
  call only when the two directions give the same order.
\<close>

theorem sort_same_direction_idempotent:
  "sort_df lib c a (sort_df lib c a xs) = sort_df lib c a xs
   \<and> df (sort_by_column lib c (sort_by_column lib c s))
       = sort_df lib c (\<not> sort_asc (sort_by_column lib c s)) (df s)
   \<and> sort_asc (sort_by_column lib c (sort_by_column lib c s))
       = (\<not> sort_asc (sort_by_column lib c s))"
proof -
  have "sort_asc (sort_by_column lib c s) = (\<not> (sort_col s = Some c \<and> sort_asc s))"
    by (simp add: sort_by_column_def Let_def)
  then show ?thesis
    by (simp add: sort_df_twice sort_by_column_twice)
qed

theorem sort_same_direction_idempotent_witness:
  "sort_df example_lib ColAmount True (sort_df example_lib ColAmount True (df sample_app))
     = sort_df example_lib ColAmount True (df sample_app)
   \<and> map tid (sort_df example_lib ColAmount True (df sample_app)) = [6, 3, 2, 4, 1, 5]
   \<and> map tid (df (sort_by_column example_lib ColAmount (sort_by_column example_lib ColAmount sample_app)))
       = [5, 1, 4, 2, 3, 6]"
proof -
  have a: "map tid (sort_df example_lib ColAmount True (df sample_app)) = [6, 3, 2, 4, 1, 5]"
    by code_simp
  have b: "sort_asc (sort_by_column example_lib ColAmount sample_app)"
    by code_simp
  have c: "map tid (sort_df example_lib ColAmount False (df sample_app)) = [5, 1, 4, 2, 3, 6]"
    by code_simp
  from sort_same_direction_idempotent [of example_lib ColAmount True "df sample_app" sample_app]
  show ?thesis using a b c by simp
qed

text \<open>
  The claim as written fails on the sample data: the second call on the amount column
  reverses the order that the first call produced.
\<close>

theorem sort_twice_counterexample:
  "df (sort_by_column example_lib ColAmount (sort_by_column example_lib ColAmount sample_app))
     \<noteq> df (sort_by_column example_lib ColAmount sample_app)"
proof -
  have "map tid (df (sort_by_column example_lib ColAmount (sort_by_column example_lib ColAmount sample_app)))
      = [5, 1, 4, 2, 3, 6]"
    by code_simp
  moreover have "map tid (df (sort_by_column example_lib ColAmount sample_app)) = [6, 3, 2, 4, 1, 5]"
    by code_simp
  ultimately show ?thesis by auto
qed

subsection \<open>Re-applying the active sort\<close>

lemma reapply_sort_active:
  "sort_col s = Some c \<Longrightarrow>
   reapply_sort lib s = s\<lparr>df := sort_df lib c (\<not> sort_asc s) (df s), sort_asc := \<not> sort_asc s\<rparr>"
  by (simp add: reapply_sort_def sort_by_column_def Let_def)

lemma reapply_sort_none: "sort_col s = None \<Longrightarrow> reapply_sort lib s = s"
  by (simp add: reapply_sort_def)

text \<open>
  Every successful add under an active sort leaves the table ordered in the direction
  opposite to the active one, and records that opposite direction as the active one.
\<close>

lemma add_item_toggles_direction:
  assumes "parse_amount_input amount_var = Inr m" and "sort_col s = Some c"
    and "s' = snd (add_item lib True date_var grp desc_var amount_var s)"
  shows "sort_col s' = Some c \<and> sort_asc s' = (\<not> sort_asc s)
    \<and> sort_df lib c (\<not> sort_asc s) (df s') = df s'"
  unfolding assms(3) add_item_success [OF assms(1)] snd_conv
  using assms(2) by (simp add: reapply_sort_active sort_df_twice)

text \<open>
  C1 on the sample data. The table is sorted by amount, ascending; after a valid add of
  100 in group Gelir the active sort is recorded as descending and the table is in
  descending order of amount. The claim says that it is still in ascending order.
\<close>

theorem add_item_reverses_active_sort:
  "sort_col amount_sorted_app = Some ColAmount \<and> sort_asc amount_sorted_app
   \<and> map amount (df amount_sorted_app) = [- 10000, - 1800, - 1200, 3000, 5000, 25000]
   \<and> fst (add_item example_lib True [] ''Gelir'' ''Ek'' ''100'' amount_sorted_app) = Added 7
   \<and> sort_col (snd (add_item example_lib True [] ''Gelir'' ''Ek'' ''100'' amount_sorted_app))
       = Some ColAmount
   \<and> \<not> sort_asc (snd (add_item example_lib True [] ''Gelir'' ''Ek'' ''100'' amount_sorted_app))
   \<and> map amount (df (snd (add_item example_lib True [] ''Gelir'' ''Ek'' ''100'' amount_sorted_app)))
       = [25000, 5000, 3000, 100, - 1200, - 1800, - 10000]"
  by code_simp

subsection \<open>Deleting ids that are not there\<close>

lemma delete_ids_absent:
  "set ids \<inter> set (map tid (rows conn)) = {} \<Longrightarrow> delete_ids ok conn ids = Inr conn \<or> (ids \<noteq> [] \<and> \<not> ok)"
proof -
  assume a: "set ids \<inter> set (map tid (rows conn)) = {}"
  then have "filter (\<lambda>r. tid r \<notin> set ids) (rows conn) = rows conn"
    by (auto simp: filter_id_conv)
  then show ?thesis by (simp add: delete_ids_def)
qed

lemma delete_ids_empty: "delete_ids ok conn [] = Inr conn"
  by (simp add: delete_ids_def)

lemma snapshot_rows_absent:
  "set ids \<inter> set (map tid xs) = {} \<Longrightarrow> snapshot_rows xs ids = []"
proof -
  assume a: "set ids \<inter> set (map tid xs) = {}"
  have "filter (\<lambda>r. tid r = rid) xs = []" if "rid \<in> set ids" for rid
    using a that by (auto simp: filter_empty_conv)
  then show ?thesis by (simp add: snapshot_rows_def)
qed

text \<open>
  With no active sort, a confirmed delete of ids that are neither in the table nor in the
  store changes nothing.
\<close>

lemma remove_selected_absent_unsorted:
  assumes "set sel \<inter> set (map tid (df s)) = {}" and "set sel \<inter> set (map tid (rows (db_conn s))) = {}"
    and "sel \<noteq> []" and "sort_col s = None"
  shows "remove_selected lib True True sel s = (Deleted (length sel), s)"
proof -
  have f: "filter (\<lambda>r. tid r \<notin> set sel) (df s) = df s"
    using assms(1) by (auto simp: filter_id_conv)
  have g: "filter (\<lambda>r. tid r \<notin> set sel) (rows (db_conn s)) = rows (db_conn s)"
    using assms(2) by (auto simp: filter_id_conv)
  show ?thesis
    using assms(3,4) snapshot_rows_absent [OF assms(1)]
    by (simp add: remove_selected_def delete_ids_def Let_def f g reapply_sort_none)
qed

text \<open>
  C9 on the sample data. The table is sorted by amount, ascending, and id 99 is in neither
  the table nor the store. The delete raises no error, pushes nothing and leaves the store
  as it was, but the table comes back in the reverse order with the sort direction
  flipped. The claim says that the table is unchanged.
\<close>

theorem remove_selected_absent_reverses_table:
  "99 \<notin> set (map tid (df amount_sorted_app))
   \<and> 99 \<notin> set (map tid (rows (db_conn amount_sorted_app)))
   \<and> map tid (df amount_sorted_app) = [6, 3, 2, 4, 1, 5]
   \<and> fst (remove_selected example_lib True True [99] amount_sorted_app) = Deleted 1
   \<and> map tid (df (snd (remove_selected example_lib True True [99] amount_sorted_app)))
       = [5, 1, 4, 2, 3, 6]
   \<and> \<not> sort_asc (snd (remove_selected example_lib True True [99] amount_sorted_app))
   \<and> undo_stack (snd (remove_selected example_lib True True [99] amount_sorted_app))
       = undo_stack amount_sorted_app
   \<and> db_conn (snd (remove_selected example_lib True True [99] amount_sorted_app))
       = db_conn amount_sorted_app
   \<and> delete_ids True (db_conn amount_sorted_app) [99] = Inr (db_conn amount_sorted_app)
   \<and> delete_ids True (db_conn amount_sorted_app) [] = Inr (db_conn amount_sorted_app)"
  by code_simp

subsection \<open>Add followed by undo\<close>

lemma fold_max_ge: "(b::int) \<le> fold max xs b \<and> (\<forall>x\<in>set xs. x \<le> fold max xs b)"
proof (induction xs arbitrary: b)
  case Nil
  then show ?case by simp
next
  case (Cons y ys)
  have "max y b \<le> fold max ys (max y b)" and "\<forall>x\<in>set ys. x \<le> fold max ys (max y b)"
    using Cons.IH [of "max y b"] by blast+
  then show ?case by auto
qed

lemma next_rowid_fresh: "r \<in> set (rows conn) \<Longrightarrow> tid r < next_rowid conn"
proof -
  assume "r \<in> set (rows conn)"
  then have "tid r \<le> fold max (map tid (rows conn)) 0"
    using fold_max_ge [of 0 "map tid (rows conn)"] by auto
  then show ?thesis by (simp add: next_rowid_def)
qed

lemma push_undo_last: "push_undo st a \<noteq> [] \<and> last (push_undo st a) = a"
proof (cases st)
  case Nil
  then show ?thesis by (simp add: push_undo_def UNDO_STACK_MAX_def)
next
  case (Cons x xs)
  then show ?thesis by (simp add: push_undo_def Let_def)
qed

lemma undo_after_add:
  assumes "undo_stack s1 = push_undo st (Add i)"
  shows "snd (undo lib True s1) =
    reapply_sort lib
      (s1\<lparr>undo_stack := butlast (push_undo st (Add i)),
          db_conn := (db_conn s1)\<lparr>rows := filter (\<lambda>r. tid r \<noteq> i) (rows (db_conn s1))\<rparr>,
          df := filter (\<lambda>r. tid r \<noteq> i) (df s1)\<rparr>)"
  using push_undo_last [of st "Add i"] assms
  by (simp add: undo_def Let_def delete_ids_def)

lemma filter_fresh_append:
  assumes "\<forall>x\<in>set xs. tid x \<noteq> i" and "tid r = i"
  shows "filter (\<lambda>x. tid x \<noteq> i) (xs @ [r]) = xs"
  using assms by (simp add: filter_id_conv)

text \<open>
  C6, as the code has it. After a valid add followed at once by undo, the store holds
  exactly its rows from before the add and the in-memory table holds exactly its rows
  from before the add, ids included (nothing is renumbered), and the active sort column
  and direction are what they were. The rows are also in their order from before the add
  when no sort is active, or when the active sort is on the date, group, description or
  amount column and the table was in the order of that sort. Under an active percent sort
  the order among rows is not guaranteed.
\<close>

theorem add_then_undo_restores:
  assumes parse: "parse_amount_input amount_var = Inr m"
    and mirror: "mirrors_store s"
    and s2: "s2 = snd (undo lib True (snd (add_item lib True date_var grp desc_var amount_var s)))"
  shows "rows (db_conn s2) = rows (db_conn s)
    \<and> mset (df s2) = mset (df s)
    \<and> sort_col s2 = sort_col s \<and> sort_asc s2 = sort_asc s
    \<and> (in_sort_order lib s \<and> sort_col s \<noteq> Some ColPercent \<longrightarrow> df s2 = df s)"
proof -
  define i where "i = next_rowid (db_conn s)"
  define r where "r = \<lparr>tid = i, tdate = parse_date lib date_var, tgroup = grp,
    description = strip desc_var, amount = sign_for_group grp m\<rparr>"
  define s1 where "s1 = snd (add_item lib True date_var grp desc_var amount_var s)"
  have s1: "s1 = reapply_sort lib
      (s\<lparr>db_conn := (db_conn s)\<lparr>rows := rows (db_conn s) @ [r], seq := i\<rparr>,
         df := df s @ [r], undo_stack := push_undo (undo_stack s) (Add i)\<rparr>)"
    unfolding s1_def add_item_success [OF parse] snd_conv i_def r_def ..
  have st: "undo_stack s1 = push_undo (undo_stack s) (Add i)"
    by (simp add: s1)
  have conn1: "db_conn s1 = (db_conn s)\<lparr>rows := rows (db_conn s) @ [r], seq := i\<rparr>"
    by (simp add: s1)
  have tr: "tid r = i" by (simp add: r_def)
  have fresh_rows: "\<forall>x\<in>set (rows (db_conn s)). tid x \<noteq> i"
  proof
    fix x assume "x \<in> set (rows (db_conn s))"
    then have "tid x < i" unfolding i_def by (rule next_rowid_fresh)
    then show "tid x \<noteq> i" by simp
  qed
  have fresh_df: "\<forall>x\<in>set (df s). tid x \<noteq> i"
  proof
    fix x assume "x \<in> set (df s)"
    then have "tid x \<in> set (map tid (rows (db_conn s)))"
      using mirror by (auto simp: mirrors_store_def)
    then show "tid x \<noteq> i" using fresh_rows by auto
  qed
  have s2': "s2 = reapply_sort lib
      (s1\<lparr>undo_stack := butlast (push_undo (undo_stack s) (Add i)),
          db_conn := (db_conn s1)\<lparr>rows := filter (\<lambda>r. tid r \<noteq> i) (rows (db_conn s1))\<rparr>,
          df := filter (\<lambda>r. tid r \<noteq> i) (df s1)\<rparr>)"
    unfolding s2 s1_def [symmetric] by (rule undo_after_add [OF st])
  note fr = filter_fresh_append [OF fresh_rows tr]
  note fd = filter_fresh_append [OF fresh_df tr]
  have rows: "rows (db_conn s2) = rows (db_conn s)"
    by (simp add: s2' conn1 fr del: filter_append)
  have "mset (df s1) = mset (df s) + {#r#}"
    by (simp add: s1 df_reapply_sort)
  then have "mset (filter (\<lambda>r. tid r \<noteq> i) (df s1)) = mset (df s)"
    using fresh_df tr by (simp add: filter_mset_eq_conv)
  then have ms: "mset (df s2) = mset (df s)"
    by (simp add: s2' df_reapply_sort)
  show ?thesis
  proof (cases "sort_col s")
    case None
    then have a: "s1 = s\<lparr>db_conn := (db_conn s)\<lparr>rows := rows (db_conn s) @ [r], seq := i\<rparr>,
         df := df s @ [r], undo_stack := push_undo (undo_stack s) (Add i)\<rparr>"
      by (simp add: s1 reapply_sort_none)
    have "sort_col s2 = None \<and> sort_asc s2 = sort_asc s \<and> df s2 = df s"
      unfolding s2' using None
      by (simp add: reapply_sort_none a fd del: filter_append)
    then show ?thesis using rows ms None by simp
  next
    case (Some c)
    then have a: "s1 = s\<lparr>db_conn := (db_conn s)\<lparr>rows := rows (db_conn s) @ [r], seq := i\<rparr>,
         df := sort_df lib c (\<not> sort_asc s) (df s @ [r]),
         undo_stack := push_undo (undo_stack s) (Add i),
         sort_asc := \<not> sort_asc s\<rparr>"
      by (simp add: s1 reapply_sort_active)
    have b: "sort_col s2 = Some c \<and> sort_asc s2 = sort_asc s
        \<and> df s2 = sort_df lib c (sort_asc s)
             (filter (\<lambda>r. tid r \<noteq> i) (sort_df lib c (\<not> sort_asc s) (df s @ [r])))"
      unfolding s2' using Some by (simp add: reapply_sort_active a)
    have "df s2 = df s" if ord: "in_sort_order lib s" and np: "c \<noteq> ColPercent"
    proof -
      have "df s2 = sort_df lib c (sort_asc s)
          (sort_df lib c (\<not> sort_asc s) (filter (\<lambda>r. tid r \<noteq> i) (df s @ [r])))"
        using b by (simp only: sort_df_filter [OF np])
      also have "\<dots> = sort_df lib c (sort_asc s) (df s)"
        by (simp only: sort_df_twice fd)
      also have "\<dots> = df s"
        using ord Some by (simp add: in_sort_order_def)
      finally show ?thesis .
    qed
    then show ?thesis using rows ms b Some by simp
  qed
qed

theorem add_then_undo_restores_witness:
  "parse_amount_input ''12,5'' = Inr 12.5
   \<and> mirrors_store amount_sorted_app
   \<and> in_sort_order example_lib amount_sorted_app
   \<and> sort_col amount_sorted_app \<noteq> Some ColPercent
   \<and> df (snd (undo example_lib True
        (snd (add_item example_lib True [] ''Gider'' ''Kira'' ''12,5'' amount_sorted_app))))
       = df amount_sorted_app
   \<and> rows (db_conn (snd (undo example_lib True
        (snd (add_item example_lib True [] ''Gider'' ''Kira'' ''12,5'' amount_sorted_app)))))
       = rows (db_conn amount_sorted_app)
   \<and> map tid (df amount_sorted_app) = [6, 3, 2, 4, 1, 5]"
proof -
  have p: "parse_amount_input ''12,5'' = Inr 12.5"
    by code_simp
  have m: "mirrors_store amount_sorted_app"
    by code_simp
  have o: "in_sort_order example_lib amount_sorted_app"
    by code_simp
  have c: "sort_col amount_sorted_app \<noteq> Some ColPercent"
    by code_simp
  have i: "map tid (df amount_sorted_app) = [6, 3, 2, 4, 1, 5]"
    by code_simp
  from add_then_undo_restores [OF p m refl, of example_lib "[]" "''Gider''" "''Kira''"]
  show ?thesis using p m o c i by simp
qed

text \<open>
  The claim as written fails under a percent sort. In \<open>tied_app\<close> the four rows all have
  50 percent and stand in the order of their ids. Adding 100 to group Gelir and undoing it
  leaves the rows in the order 2, 4, 1, 3.
\<close>

theorem add_then_undo_counterexample:
  "mirrors_store tied_app \<and> in_sort_order example_lib tied_app
   \<and> map tid (df tied_app) = [1, 2, 3, 4]
   \<and> map tid (df (snd (undo example_lib True
        (snd (add_item example_lib True [] ''Gelir'' ''y'' ''100'' tied_app))))) = [2, 4, 1, 3]
   \<and> df (snd (undo example_lib True
        (snd (add_item example_lib True [] ''Gelir'' ''y'' ''100'' tied_app)))) \<noteq> df tied_app"
proof -
  have a: "mirrors_store tied_app \<and> in_sort_order example_lib tied_app
      \<and> map tid (df tied_app) = [1, 2, 3, 4]"
    by code_simp
  have b: "map tid (df (snd (undo example_lib True
        (snd (add_item example_lib True [] ''Gelir'' ''y'' ''100'' tied_app))))) = [2, 4, 1, 3]"
    by code_simp
  from a b have "map tid (df (snd (undo example_lib True
        (snd (add_item example_lib True [] ''Gelir'' ''y'' ''100'' tied_app)))))
      \<noteq> map tid (df tied_app)"
    by simp
  then have "df (snd (undo example_lib True
        (snd (add_item example_lib True [] ''Gelir'' ''y'' ''100'' tied_app)))) \<noteq> df tied_app"
    by auto
  with a b show ?thesis by blast
qed

subsection \<open>Replacing and splitting\<close>

lemma replace_single: "replace [a] new s = concat (map (\<lambda>c. if c = a then new else [c]) s)"
  by (induction s) simp_all

lemma replace_single_delete: "replace [a] [] s = filter (\<lambda>c. c \<noteq> a) s"
  by (induction s) (simp_all add: replace_single)

lemma replace_single_char: "replace [a] [b] s = map (\<lambda>c. if c = a then b else c) s"
  by (induction s) (simp_all add: replace_single)

lemma split_not_Nil [simp]: "split c s \<noteq> []"
  by (induction s) (simp_all split: list.splits)

lemma concat_split: "concat (split c s) = filter (\<lambda>x. x \<noteq> c) s"
  by (induction s) (auto split: list.splits)

lemma split_no_sep: "c \<notin> set s \<Longrightarrow> split c s = [s]"
  by (induction s) (auto split: list.splits)

lemma split_at_first: "c \<notin> set a \<Longrightarrow> split c (a @ c # b) = a # split c b"
  by (induction a) (auto split: list.splits)

lemma length_split: "length (split c s) = Suc (count_list s c)"
  by (induction s) (auto split: list.splits)

lemma decompose_at_first:
  assumes "c \<in> set s"
  shows "s = takeWhile (\<lambda>x. x \<noteq> c) s @ c # tl (dropWhile (\<lambda>x. x \<noteq> c) s)"
proof -
  have ne: "dropWhile (\<lambda>x. x \<noteq> c) s \<noteq> []"
    using assms by (simp add: dropWhile_eq_Nil_conv)
  then have "\<not> (hd (dropWhile (\<lambda>x. x \<noteq> c) s) \<noteq> c)"
    by (rule hd_dropWhile)
  then have "dropWhile (\<lambda>x. x \<noteq> c) s = c # tl (dropWhile (\<lambda>x. x \<noteq> c) s)"
    using ne by (cases "dropWhile (\<lambda>x. x \<noteq> c) s") auto
  then show ?thesis
    by (metis takeWhile_dropWhile_id)
qed

subsection \<open>The lone-dot rule\<close>

text \<open>
  C4, as the code has it. For a body with a dot and no comma, the dots are removed
  (read as thousands separators) exactly when there are two or more dots, or there is one
  dot with exactly three characters after it and at most three before it. Otherwise the
  body is left as it is and its single dot is the decimal point.
\<close>

theorem lone_dot_rule:
  assumes "CHR ''.'' \<in> set s_body" and "CHR '','' \<notin> set s_body"
  shows "normalize_separators s_body =
      (if 2 \<le> count_list s_body (CHR ''.'')
          \<or> (length (tl (dropWhile (\<lambda>c. c \<noteq> CHR ''.'') s_body)) = 3
              \<and> length (takeWhile (\<lambda>c. c \<noteq> CHR ''.'') s_body) \<le> 3)
       then filter (\<lambda>c. c \<noteq> CHR ''.'') s_body
       else s_body)
    \<and> filter (\<lambda>c. c \<noteq> CHR ''.'') s_body \<noteq> s_body"
proof -
  define a where "a = takeWhile (\<lambda>c. c \<noteq> CHR ''.'') s_body"
  define b where "b = tl (dropWhile (\<lambda>c. c \<noteq> CHR ''.'') s_body)"
  have s: "s_body = a @ CHR ''.'' # b"
    unfolding a_def b_def using assms(1) by (rule decompose_at_first)
  have na: "CHR ''.'' \<notin> set a"
    unfolding a_def by (auto dest: set_takeWhileD)
  have parts: "split (CHR ''.'') s_body = a # split (CHR ''.'') b"
    by (subst s) (rule split_at_first [OF na])
  have cnt: "count_list s_body (CHR ''.'') = Suc (count_list b (CHR ''.''))"
    using na by (subst s) simp
  have cat: "concat (split (CHR ''.'') s_body) = filter (\<lambda>c. c \<noteq> CHR ''.'') s_body"
    by (rule concat_split)
  have neq: "filter (\<lambda>c. c \<noteq> CHR ''.'') s_body \<noteq> s_body"
    using assms(1) by (simp add: filter_id_conv)
  show ?thesis
  proof (cases "CHR ''.'' \<in> set b")
    case True
    then have "count_list b (CHR ''.'') \<noteq> 0"
      by (simp only: count_list_0_iff not_not)
    then have "0 < count_list b (CHR ''.'')"
      by simp
    then have two: "2 \<le> count_list s_body (CHR ''.'')"
      by (simp add: cnt)
    then have "length (split (CHR ''.'') s_body) > 2"
      by (simp add: length_split)
    then have "normalize_separators s_body = filter (\<lambda>c. c \<noteq> CHR ''.'') s_body"
      using assms by (simp add: normalize_separators_def Let_def cat)
    then show ?thesis using two neq by simp
  next
    case False
    then have one: "\<not> 2 \<le> count_list s_body (CHR ''.'')"
      by (simp add: cnt count_list_0_iff)
    have p2: "split (CHR ''.'') s_body = [a, b]"
      using False by (simp add: parts split_no_sep)
    have f: "filter (\<lambda>c. c \<noteq> CHR ''.'') s_body = a @ b"
      using cat by (simp add: p2)
    have "normalize_separators s_body = (if length b = 3 \<and> length a \<le> 3 then a @ b else s_body)"
      using assms by (simp add: normalize_separators_def Let_def p2)
    then show ?thesis
      using one neq by (simp add: f a_def [symmetric] b_def [symmetric])
  qed
qed

theorem lone_dot_rule_witness:
  "CHR ''.'' \<in> set ''1.234'' \<and> CHR '','' \<notin> set ''1.234''
   \<and> normalize_separators ''1.234'' = ''1234''
   \<and> parse_amount_input ''1.234'' = Inr 1234
   \<and> CHR ''.'' \<in> set ''1234.567'' \<and> CHR '','' \<notin> set ''1234.567''
   \<and> normalize_separators ''1234.567'' = ''1234.567''
   \<and> parse_amount_input ''1234.567'' = Inr 1234.567
   \<and> parse_amount_input ''1.234.567'' = Inr 1234567"
proof -
  have h1: "CHR ''.'' \<in> set ''1.234'' \<and> CHR '','' \<notin> set ''1.234''"
    by simp
  have h2: "CHR ''.'' \<in> set ''1234.567'' \<and> CHR '','' \<notin> set ''1234.567''"
    by simp
  have p: "parse_amount_input ''1.234'' = Inr 1234
      \<and> parse_amount_input ''1234.567'' = Inr 1234.567
      \<and> parse_amount_input ''1.234.567'' = Inr 1234567"
    by code_simp
  from lone_dot_rule [of "''1.234''"] h1
  have a: "normalize_separators ''1.234'' = ''1234''"
    by simp
  from lone_dot_rule [of "''1234.567''"] h2
  have b: "normalize_separators ''1234.567'' = ''1234.567''"
    by simp
  show ?thesis using h1 h2 p a b by blast
qed

text \<open>
  The claim as written fails at \<^verbatim>\<open>123.45\<close>: one group of two digits follows the dot
  and three digits precede it, so the claim has the dot removed and the value 12345; the
  code keeps the dot and the value is 123.45.
\<close>

theorem lone_dot_counterexample:
  "normalize_separators ''123.45'' = ''123.45''
   \<and> parse_amount_input ''123.45'' = Inr 123.45
   \<and> parse_amount_input ''123.45'' \<noteq> Inr 12345"
proof -
  have a: "normalize_separators ''123.45'' = ''123.45''"
    by code_simp
  have b: "parse_amount_input ''123.45'' = Inr 123.45"
    by code_simp
  show ?thesis using a b by simp
qed

end
